theory Spec2Isabelle
  imports Main "HOL-Library.Sublist"
begin

section \<open>Python values used by string\_searching\_algorithms.py\<close>

text \<open>
  The exceptions the modelled functions can raise.  A function with a loop whose
  termination depends on the data returns \<open>(py_error + 'a) option\<close>: \<open>None\<close> is a run
  that never returns, \<open>Some (Inl e)\<close> a run that raises \<open>e\<close>, \<open>Some (Inr v)\<close> a run
  that returns \<open>v\<close>.  A generator is modelled by the list of the values it yields when
  it is run to exhaustion.
\<close>

datatype py_error = IndexError | KeyError | StopIteration | UnboundLocalError
  | ZeroDivisionError | ValueError | TypeError

text \<open>Python subscription \<open>xs[i]\<close>: a negative index counts from the end of the list.\<close>

definition py_get :: "'a list \<Rightarrow> int \<Rightarrow> py_error + 'a" where
  "py_get xs i =
     (if 0 \<le> i \<and> i < int (length xs) then Inr (xs ! nat i)
      else if i < 0 \<and> - int (length xs) \<le> i then Inr (xs ! nat (int (length xs) + i))
      else Inl IndexError)"

text \<open>Python item assignment \<open>xs[i] = v\<close>.\<close>

definition py_set :: "'a list \<Rightarrow> int \<Rightarrow> 'a \<Rightarrow> py_error + 'a list" where
  "py_set xs i v =
     (if 0 \<le> i \<and> i < int (length xs) then Inr (xs[nat i := v])
      else if i < 0 \<and> - int (length xs) \<le> i then Inr (xs[nat (int (length xs) + i) := v])
      else Inl IndexError)"

text \<open>Python \<open>range(a, b)\<close> as the list of its values.\<close>

definition py_range :: "int \<Rightarrow> int \<Rightarrow> int list" where
  "py_range a b = [a..b - 1]"

section \<open>Knuth-Morris-Pratt\<close>

text \<open>
  The statement \<open>while l != p[j]: if not j: break; j = lps[j - 1]\<close> with its \<open>else\<close>
  clause \<open>j += 1\<close>, which stands in the same words in \<open>constructLPS\<close> and in
  \<open>matchStartGenerator\<close>.  The result is the value of \<open>j\<close> after the statement and
  whether the \<open>else\<close> clause ran (the loop ended without \<open>break\<close>).
\<close>

partial_function (option) kmp_while ::
  "'a list \<Rightarrow> nat list \<Rightarrow> 'a \<Rightarrow> nat \<Rightarrow> (py_error + nat \<times> bool) option" where
  "kmp_while p lps l j =
     (case py_get p (int j) of
        Inl e \<Rightarrow> Some (Inl e)
      | Inr pj \<Rightarrow>
          if l \<noteq> pj then
            (if j = 0 then Some (Inr (j, False))
             else (case py_get lps (int j - 1) of
                     Inl e \<Rightarrow> Some (Inl e)
                   | Inr j' \<Rightarrow> kmp_while p lps l j'))
          else Some (Inr (j + 1, True)))"

declare kmp_while.simps [code]

text \<open>The \<open>for l in p_iter\<close> loop of \<open>constructLPS\<close>.\<close>

fun constructLPS_loop ::
  "'a list \<Rightarrow> 'a list \<Rightarrow> nat list \<Rightarrow> nat \<Rightarrow> (py_error + nat list) option" where
  "constructLPS_loop p [] lps j = Some (Inr lps)"
| "constructLPS_loop p (l # ls) lps j =
     (case kmp_while p lps l j of
        None \<Rightarrow> None
      | Some (Inl e) \<Rightarrow> Some (Inl e)
      | Some (Inr (j', _)) \<Rightarrow> constructLPS_loop p ls (lps @ [j']) j')"

text \<open>\<open>next(p_iter)\<close> raises \<open>StopIteration\<close> on an empty pattern.\<close>

definition constructLPS :: "'a list \<Rightarrow> (py_error + nat list) option" where
  "constructLPS p =
     (case p of
        [] \<Rightarrow> Some (Inl StopIteration)
      | _ # p_iter \<Rightarrow> constructLPS_loop p p_iter [0] 0)"

text \<open>
  The \<open>for i, l in enumerate(s)\<close> loop of \<open>KnuthMorrisPratt.matchStartGenerator\<close>;
  \<open>ys\<close> collects the yielded indices.
\<close>

fun kmp_scan ::
  "'a list \<Rightarrow> nat list \<Rightarrow> nat \<Rightarrow> 'a list \<Rightarrow> nat \<Rightarrow> int list \<Rightarrow> (py_error + int list) option"
  where
  "kmp_scan p lps i [] j ys = Some (Inr ys)"
| "kmp_scan p lps i (l # ls) j ys =
     (case kmp_while p lps l j of
        None \<Rightarrow> None
      | Some (Inl e) \<Rightarrow> Some (Inl e)
      | Some (Inr (j', matched)) \<Rightarrow>
          if \<not> matched \<or> j' \<noteq> length p then kmp_scan p lps (i + 1) ls j' ys
          else (case py_get lps (- 1) of
                  Inl e \<Rightarrow> Some (Inl e)
                | Inr j'' \<Rightarrow>
                    kmp_scan p lps (i + 1) ls j'' (ys @ [int i - int (length p) + 1])))"

definition KMP_matchStartGenerator :: "'a list \<Rightarrow> 'a list \<Rightarrow> (py_error + int list) option" where
  "KMP_matchStartGenerator p s =
     (let m = length p in
      if m = 0 then Some (Inr (py_range 0 (int (length s))))
      else if m > length s then Some (Inr [])
      else (case constructLPS p of
              None \<Rightarrow> None
            | Some (Inl e) \<Rightarrow> Some (Inl e)
            | Some (Inr lps) \<Rightarrow> kmp_scan p lps 0 s 0 []))"

text \<open>
  The argument \<open>s\<close> of \<open>matchStartGenerator\<close> is annotated \<open>Iterable[Any]\<close>: it is
  a sequence with \<open>__len__\<close> (a string, a list, a tuple), or an iterator or generator,
  which has none, so that \<open>len(s)\<close> raises \<open>TypeError\<close>.  Both carry their elements in
  iteration order.
\<close>

datatype 'a py_iterable = Sequence "'a list" | Iterator "'a list"

definition py_len :: "'a py_iterable \<Rightarrow> py_error + nat" where
  "py_len s = (case s of Sequence xs \<Rightarrow> Inr (length xs) | Iterator xs \<Rightarrow> Inl TypeError)"

definition py_elements :: "'a py_iterable \<Rightarrow> 'a list" where
  "py_elements s = (case s of Sequence xs \<Rightarrow> xs | Iterator xs \<Rightarrow> xs)"

text \<open>
  \<open>KnuthMorrisPratt.matchStartGenerator\<close> on any iterable \<open>s\<close>: the calls \<open>len(s)\<close> of
  the branches \<open>if not m: yield from range(len(s))\<close> and \<open>elif m > len(s)\<close> are
  written out; on a sequence it is \<open>KMP_matchStartGenerator\<close>.
\<close>

definition KMP_matchStartGenerator_iterable ::
  "'a list \<Rightarrow> 'a py_iterable \<Rightarrow> (py_error + int list) option" where
  "KMP_matchStartGenerator_iterable p s =
     (let m = length p in
      if m = 0 then
        (case py_len s of
           Inl e \<Rightarrow> Some (Inl e)
         | Inr n \<Rightarrow> Some (Inr (py_range 0 (int n))))
      else
        (case py_len s of
           Inl e \<Rightarrow> Some (Inl e)
         | Inr n \<Rightarrow>
             if m > n then Some (Inr [])
             else (case constructLPS p of
                     None \<Rightarrow> None
                   | Some (Inl e) \<Rightarrow> Some (Inl e)
                   | Some (Inr lps) \<Rightarrow> kmp_scan p lps 0 (py_elements s) 0 [])))"

section \<open>Brute-force substring scanning\<close>

text \<open>
  The reference the specification compares the matchers with: all indices \<open>i\<close> of the
  text with \<open>text[i : i + len(pattern)] == pattern\<close>, in ascending order.
\<close>

definition occurs_at :: "'a list \<Rightarrow> 'a list \<Rightarrow> nat \<Rightarrow> bool" where
  "occurs_at p s i = (take (length p) (drop i s) = p)"

definition brute_force :: "'a list \<Rightarrow> 'a list \<Rightarrow> int list" where
  "brute_force p s = map int (filter (occurs_at p s) [0..<length s])"

section \<open>Z algorithm\<close>

text \<open>
  The inner loop \<open>for rgt in range(max(rgt, i), n): if s[rgt] != s[rgt - lft]: break\<close>
  with its \<open>else\<close> clause \<open>rgt = n\<close>; the result is \<open>rgt\<close> after the statement.
\<close>

fun z_extend :: "'a list \<Rightarrow> int \<Rightarrow> int \<Rightarrow> int list \<Rightarrow> py_error + int" where
  "z_extend s lft n [] = Inr n"
| "z_extend s lft n (rgt # rs) =
     (case py_get s rgt of
        Inl e \<Rightarrow> Inl e
      | Inr a \<Rightarrow>
          (case py_get s (rgt - lft) of
             Inl e \<Rightarrow> Inl e
           | Inr b \<Rightarrow> if a \<noteq> b then Inr rgt else z_extend s lft n rs))"

text \<open>The loop \<open>for i in range(1, n)\<close> of \<open>constructZArray\<close> on the state \<open>(res, lft, rgt)\<close>.\<close>

fun z_loop :: "'a list \<Rightarrow> int \<Rightarrow> int list \<Rightarrow> int list \<Rightarrow> int \<Rightarrow> int \<Rightarrow> py_error + int list"
  where
  "z_loop s n [] res lft rgt = Inr res"
| "z_loop s n (i # is) res lft rgt =
     (case py_get res (i - lft) of
        Inl e \<Rightarrow> Inl e
      | Inr v \<Rightarrow>
          if v < rgt - i then
            (case py_set res i v of
               Inl e \<Rightarrow> Inl e
             | Inr res' \<Rightarrow> z_loop s n is res' lft rgt)
          else
            (case z_extend s i n (py_range (max rgt i) n) of
               Inl e \<Rightarrow> Inl e
             | Inr rgt' \<Rightarrow>
                 (case py_set res i (rgt' - i) of
                    Inl e \<Rightarrow> Inl e
                  | Inr res' \<Rightarrow> z_loop s n is res' i rgt')))"

definition constructZArray :: "'a list \<Rightarrow> py_error + int list" where
  "constructZArray s =
     (let n = int (length s) in
      case z_loop s n (py_range 1 n) (replicate (length s) 0) 0 1 of
        Inl e \<Rightarrow> Inl e
      | Inr res \<Rightarrow> py_set res 0 n)"

text \<open>The loop \<open>for i in range(m + 1, n): if z_arr[i] == m: yield i - m - 1\<close>.\<close>

fun z_yield :: "int list \<Rightarrow> int \<Rightarrow> int list \<Rightarrow> py_error + int list" where
  "z_yield z_arr m [] = Inr []"
| "z_yield z_arr m (i # is) =
     (case py_get z_arr i of
        Inl e \<Rightarrow> Inl e
      | Inr z \<Rightarrow>
          (case z_yield z_arr m is of
             Inl e \<Rightarrow> Inl e
           | Inr ys \<Rightarrow> Inr (if z = m then (i - m - 1) # ys else ys)))"

text \<open>
  \<open>ZAlgorithm.matchStartGenerator\<close>: \<open>s2\<close> is the pattern, the separator \<open>wild\<close> and
  the text; \<open>n = n2 - m - 1\<close> is the length of the text, and the loop runs over
  \<open>range(m + 1, n)\<close>.
\<close>

definition ZA_matchStartGenerator :: "'a list \<Rightarrow> 'a list \<Rightarrow> 'a \<Rightarrow> py_error + int list" where
  "ZA_matchStartGenerator p s wild =
     (let s2 = p @ [wild] @ s;
          m = int (length p);
          n2 = int (length s2);
          n = n2 - m - 1
      in case constructZArray s2 of
           Inl e \<Rightarrow> Inl e
         | Inr z_arr \<Rightarrow> z_yield z_arr m (py_range (m + 1) n))"

section \<open>Rolling hash\<close>

text \<open>
  A local variable of a Python function is unbound until its first assignment; reading
  it before raises \<open>UnboundLocalError\<close>.
\<close>

definition read_local :: "'v option \<Rightarrow> py_error + 'v" where
  "read_local x = (case x of None \<Rightarrow> Inl UnboundLocalError | Some v \<Rightarrow> Inr v)"

text \<open>The loop \<open>for j, p in enumerate(p_lst): hsh[j] = (hsh[j] * p + val) % md\<close>.\<close>

fun hash_push :: "nat \<Rightarrow> int list \<Rightarrow> int list \<Rightarrow> int \<Rightarrow> int \<Rightarrow> py_error + int list" where
  "hash_push j [] hsh val md = Inr hsh"
| "hash_push j (p # ps) hsh val md =
     (case py_get hsh (int j) of
        Inl e \<Rightarrow> Inl e
      | Inr h \<Rightarrow>
          if md = 0 then Inl ZeroDivisionError
          else (case py_set hsh (int j) ((h * p + val) mod md) of
                  Inl e \<Rightarrow> Inl e
                | Inr hsh' \<Rightarrow> hash_push (j + 1) ps hsh' val md))"

text \<open>
  The loop \<open>for i in range(length)\<close>: it reads the first \<open>length\<close> elements.  The
  result is \<open>None\<close> when \<open>next(iter_obj)\<close> raised \<open>StopIteration\<close> (the generator
  returns), and otherwise the rest of the iterator, \<open>hsh\<close> and \<open>val_qu\<close>.
\<close>

fun hash_first ::
  "('a \<Rightarrow> int) \<Rightarrow> nat \<Rightarrow> 'a list \<Rightarrow> int list \<Rightarrow> int list \<Rightarrow> int list \<Rightarrow> int \<Rightarrow>
     py_error + ('a list \<times> int list \<times> int list) option" where
  "hash_first f 0 iter_obj p_lst hsh val_qu md = Inr (Some (iter_obj, hsh, val_qu))"
| "hash_first f (Suc k) [] p_lst hsh val_qu md = Inr None"
| "hash_first f (Suc k) (x # iter_obj) p_lst hsh val_qu md =
     (case hash_push 0 p_lst hsh (f x) md of
        Inl e \<Rightarrow> Inl e
      | Inr hsh' \<Rightarrow> hash_first f k iter_obj p_lst hsh' (val_qu @ [f x]) md)"

text \<open>
  The loop \<open>for j, p in enumerate(p_lst):
  hsh[j] = ((hsh[j] - mults[j] * val_qu.popleft()) * p + val) % md\<close>;
  \<open>popleft\<close> raises \<open>IndexError\<close> on an empty deque.
\<close>

fun hash_roll ::
  "nat \<Rightarrow> int list \<Rightarrow> int list \<Rightarrow> int list \<Rightarrow> int list \<Rightarrow> int \<Rightarrow> int \<Rightarrow>
     py_error + int list \<times> int list" where
  "hash_roll j [] hsh mults val_qu val md = Inr (hsh, val_qu)"
| "hash_roll j (p # ps) hsh mults val_qu val md =
     (case py_get hsh (int j) of
        Inl e \<Rightarrow> Inl e
      | Inr h \<Rightarrow>
          (case py_get mults (int j) of
             Inl e \<Rightarrow> Inl e
           | Inr mult \<Rightarrow>
               (case val_qu of
                  [] \<Rightarrow> Inl IndexError
                | v # val_qu' \<Rightarrow>
                    if md = 0 then Inl ZeroDivisionError
                    else (case py_set hsh (int j) (((h - mult * v) * p + val) mod md) of
                            Inl e \<Rightarrow> Inl e
                          | Inr hsh' \<Rightarrow> hash_roll (j + 1) ps hsh' mults val_qu' val md))))"

text \<open>
  The loop \<open>for i in itertools.count(length)\<close>: the yielded tuples, and the exception
  that ended the generator, if any.
\<close>

fun hash_rest ::
  "('a \<Rightarrow> int) \<Rightarrow> 'a list \<Rightarrow> int list \<Rightarrow> int list \<Rightarrow> int list \<Rightarrow> int list \<Rightarrow> int \<Rightarrow>
     int list list \<times> py_error option" where
  "hash_rest f [] p_lst hsh mults val_qu md = ([], None)"
| "hash_rest f (x # iter_obj) p_lst hsh mults val_qu md =
     (case hash_roll 0 p_lst hsh mults (val_qu @ [f x]) (f x) md of
        Inl e \<Rightarrow> ([], Some e)
      | Inr (hsh', val_qu') \<Rightarrow>
          (case hash_rest f iter_obj p_lst hsh' mults val_qu' md of
             (ys, r) \<Rightarrow> (hsh' # ys, r)))"

text \<open>
  \<open>rollingHash(s, length, p_lst, md, func)\<close> on a sequence \<open>s\<close> with \<open>__len__\<close> and a
  non-negative \<open>length\<close>; \<open>func = None\<close> is the default.  In the branch
  \<open>func is None\<close> the first statement is \<open>val = func(next(iter_obj))\<close>, and
  \<open>iter_obj\<close> is assigned only after the branch.  The result is the list of the
  yielded tuples and the exception that ended the generator, if any.
\<close>

definition rollingHash ::
  "'a list \<Rightarrow> nat \<Rightarrow> int list \<Rightarrow> int \<Rightarrow> ('a \<Rightarrow> int) option \<Rightarrow> int list list \<times> py_error option"
  where
  "rollingHash s len p_lst md func =
     (if length s < len then ([], None)
      else (case func of
              None \<Rightarrow>
                (case read_local (None :: 'a list option) of
                   Inl e \<Rightarrow> ([], Some e)
                 | Inr iter_obj \<Rightarrow> ([], Some TypeError))
            | Some f \<Rightarrow>
                (case hash_first f len s p_lst (replicate (length p_lst) 0) [] md of
                   Inl e \<Rightarrow> ([], Some e)
                 | Inr None \<Rightarrow> ([], None)
                 | Inr (Some (iter_obj, hsh, val_qu)) \<Rightarrow>
                     if md = 0 \<and> p_lst \<noteq> [] then ([hsh], Some ValueError)
                     else (case hash_rest f iter_obj p_lst hsh
                                  (map (\<lambda>p. p ^ len mod md) p_lst) val_qu md of
                             (ys, r) \<Rightarrow> (hsh # ys, r)))))"

section \<open>Manacher's algorithm\<close>

lemma py_set_get:
  "py_set xs i v = Inr xs' \<Longrightarrow> py_get xs' i = Inr v \<and> length xs' = length xs"
  by (auto simp: py_set_def py_get_def split: if_splits)

text \<open>
  The loop \<open>while i - res[i] - 1 >= 0 and i + res[i] + 1 < len(s) and
  s[i + res[i] + 1] == s[i - res[i] - 1]: res[i] += 1\<close>.
\<close>

function manacher_while :: "'a list \<Rightarrow> int \<Rightarrow> int list \<Rightarrow> py_error + int list" where
  "manacher_while s i res =
     (case py_get res i of
        Inl e \<Rightarrow> Inl e
      | Inr r \<Rightarrow>
          if i - r - 1 \<ge> 0 \<and> i + r + 1 < int (length s) then
            (case py_get s (i + r + 1) of
               Inl e \<Rightarrow> Inl e
             | Inr a \<Rightarrow>
                 (case py_get s (i - r - 1) of
                    Inl e \<Rightarrow> Inl e
                  | Inr b \<Rightarrow>
                      if a = b then
                        (case py_set res i (r + 1) of
                           Inl e \<Rightarrow> Inl e
                         | Inr res' \<Rightarrow> manacher_while s i res')
                      else Inr res))
          else Inr res)"
  by pat_completeness auto
termination
proof (relation "measure (\<lambda>(s, i, res).
    nat (int (length s) - i - (case py_get res i of Inl e \<Rightarrow> 0 | Inr r \<Rightarrow> r)))")
  show "wf (measure (\<lambda>(s :: 'a list, i, res).
    nat (int (length s) - i - (case py_get res i of Inl e \<Rightarrow> 0 | Inr r \<Rightarrow> r))))"
    by simp
next
  fix s :: "'a list" and i :: int and res res' :: "int list" and r :: int and a b :: 'a
  assume "py_get res i = Inr r" and "i - r - 1 \<ge> 0 \<and> i + r + 1 < int (length s)"
    and "py_set res i (r + 1) = Inr res'"
  then show "((s, i, res'), (s, i, res)) \<in> measure (\<lambda>(s, i, res).
    nat (int (length s) - i - (case py_get res i of Inl e \<Rightarrow> 0 | Inr r \<Rightarrow> r)))"
    using py_set_get [of res i "r + 1" res'] by simp
qed

declare manacher_while.simps [simp del]

text \<open>
  The loop \<open>for i in range(n)\<close> on the state
  \<open>(curr_centre, curr_right, max_val, max_i, res)\<close>.
\<close>

fun manacher_loop ::
  "'a list \<Rightarrow> int list \<Rightarrow> int \<Rightarrow> int \<Rightarrow> int \<Rightarrow> int \<Rightarrow> int list \<Rightarrow> py_error + int list" where
  "manacher_loop s [] curr_centre curr_right max_val max_i res = Inr res"
| "manacher_loop s (i # is) curr_centre curr_right max_val max_i res =
     (case (if i < curr_right then
              (case py_get res (push_bit 1 curr_centre - i) of
                 Inl e \<Rightarrow> Inl e
               | Inr v \<Rightarrow> py_set res i (min v (curr_right - i)))
            else Inr res) of
        Inl e \<Rightarrow> Inl e
      | Inr res1 \<Rightarrow>
          (case manacher_while s i res1 of
             Inl e \<Rightarrow> Inl e
           | Inr res2 \<Rightarrow>
               (case py_get res2 i of
                  Inl e \<Rightarrow> Inl e
                | Inr r \<Rightarrow>
                    manacher_loop s is
                      (if i + r > curr_right then i else curr_centre)
                      (if i + r > curr_right then i + r else curr_right)
                      (if r > max_val then r else max_val)
                      (if r > max_val then i else max_i)
                      res2)))"

definition manacherAlgorithm :: "'a list \<Rightarrow> py_error + int list" where
  "manacherAlgorithm s =
     manacher_loop s (py_range 0 (int (length s))) 0 0 0 0 (replicate (length s) 0)"

text \<open>
  The specification's reference: the elements of \<open>s\<close> from index \<open>i - r\<close> to \<open>i + r\<close>
  exist and read the same in both directions.
\<close>

definition palindrome_at :: "'a list \<Rightarrow> nat \<Rightarrow> nat \<Rightarrow> bool" where
  "palindrome_at s i r =
     (r \<le> i \<and> i + r < length s \<and>
      rev (take (2 * r + 1) (drop (i - r) s)) = take (2 * r + 1) (drop (i - r) s))"

text \<open>
  The same property element by element, as the proofs use it.
\<close>

definition pal :: "'a list \<Rightarrow> nat \<Rightarrow> nat \<Rightarrow> bool" where
  "pal s i r = (r \<le> i \<and> i + r < length s \<and> (\<forall>k\<le>r. s ! (i - k) = s ! (i + k)))"

section \<open>Theorems: Knuth-Morris-Pratt and the Z algorithm\<close>

lemma py_range_nat: "py_range (int a) (int b) = map int [a..<b]"
proof (induction b)
  case 0
  then show ?case by (simp add: py_range_def)
next
  case (Suc b)
  show ?case
  proof (cases "a \<le> b")
    case True
    then have "[int a..int (Suc b) - 1] = [int a..int b - 1] @ [int b]"
      using upto_rec2 [of "int a" "int b"] by simp
    with Suc True show ?thesis by (simp add: py_range_def)
  next
    case False
    then show ?thesis by (simp add: py_range_def)
  qed
qed

lemma py_range_0: "py_range 0 (int n) = map int [0..<n]"
  using py_range_nat [of 0 n] by simp

lemma KMP_matchStartGenerator_iterable_Sequence:
  "KMP_matchStartGenerator_iterable p (Sequence s) = KMP_matchStartGenerator p s"
  by (auto simp: KMP_matchStartGenerator_iterable_def KMP_matchStartGenerator_def
      py_len_def py_elements_def Let_def split: option.splits sum.splits)

text \<open>
  On a sequence with \<open>__len__\<close> and with an empty pattern,
  \<open>KnuthMorrisPratt.matchStartGenerator\<close> raises nothing and yields exactly the indices
  \<open>0, ..., len(s) - 1\<close> of the text, in increasing order.
\<close>

lemma kmp_empty_pattern_on_sequence:
  "KMP_matchStartGenerator_iterable [] (Sequence s) = Some (Inr (map int [0..<length s]))"
  by (simp add: KMP_matchStartGenerator_iterable_Sequence KMP_matchStartGenerator_def py_range_0)

text \<open>
  C9 at the empty pattern and the iterator \<open>iter("abc")\<close>, a finite ordered iterable:
  \<open>matchStartGenerator\<close> yields no index and raises \<open>TypeError\<close>, because the
  empty-pattern branch calls \<open>len(s)\<close>.
\<close>

theorem C9_kmp_empty_pattern_iterator_raises:
  "KMP_matchStartGenerator_iterable [] (Iterator ''abc'') = Some (Inl TypeError)"
  by (simp add: KMP_matchStartGenerator_iterable_def py_len_def)

text \<open>
  C3 at the pattern \<open>a\<close> and the text \<open>a\<close>: Knuth-Morris-Pratt and the brute-force
  scan find the match at index 0, and the Z algorithm yields nothing, because its loop
  over \<open>range(m + 1, n)\<close> stops \<open>m + 1\<close> positions before the end of \<open>s2\<close>.
\<close>

theorem C3_z_algorithm_misses_match:
  "KMP_matchStartGenerator ''a'' ''a'' = Some (Inr [0]) \<and>
   brute_force ''a'' ''a'' = [0] \<and>
   ZA_matchStartGenerator ''a'' ''a'' (CHR ''$'') = Inr []"
  by code_simp

text \<open>
  C8 at \<open>rollingHash("abc", 2)\<close> with the default arguments: the generator yields
  nothing and raises \<open>UnboundLocalError\<close>.
\<close>

theorem C8_rollingHash_default_raises:
  "rollingHash ''abc'' 2 [37, 53] (10 ^ 9 + 7) None = ([], Some UnboundLocalError)"
  by (simp add: rollingHash_def read_local_def)

section \<open>Theorems: Manacher's algorithm\<close>


lemma py_get_nat: "i < length xs \<Longrightarrow> py_get xs (int i) = Inr (xs ! i)"
  by (simp add: py_get_def)

lemma py_set_nat: "i < length xs \<Longrightarrow> py_set xs (int i) v = Inr (xs[i := v])"
  by (simp add: py_set_def)

lemma pal_mono: "pal s i r \<Longrightarrow> r' \<le> r \<Longrightarrow> pal s i r'"
  by (auto simp: pal_def)

lemma pal_0: "i < length s \<Longrightarrow> pal s i 0"
  by (simp add: pal_def)

lemma pal_Suc:
  "pal s i (Suc r) \<longleftrightarrow> pal s i r \<and> Suc r \<le> i \<and> i + Suc r < length s \<and> s ! (i - Suc r) = s ! (i + Suc r)"
  by (auto simp: pal_def le_Suc_eq)

lemma pal_max: "pal s i r' \<Longrightarrow> \<not> pal s i (Suc r) \<Longrightarrow> r' \<le> r"
  using pal_mono [of s i r' "Suc r"] by (cases "r' \<le> r") auto

lemma manacher_while_correct:
  assumes "i < length s" "length res = length s" "res ! i = int r0" "pal s i r0"
  shows "\<exists>r. manacher_while s (int i) res = Inr (res[i := int r]) \<and> pal s i r \<and> \<not> pal s i (Suc r)"
  using assms
proof (induction "length s - i - r0" arbitrary: r0 res rule: less_induct)
  case less
  have g: "py_get res (int i) = Inr (int r0)"
    using less.prems by (simp add: py_get_nat)
  show ?case
  proof (cases "Suc r0 \<le> i \<and> i + Suc r0 < length s")
    case False
    then have np: "\<not> pal s i (Suc r0)" by (auto simp: pal_def)
    have "manacher_while s (int i) res = Inr res"
      using False g by (subst manacher_while.simps) auto
    moreover have "res[i := int r0] = res"
      using less.prems by (metis list_update_id)
    ultimately have "manacher_while s (int i) res = Inr (res[i := int r0]) \<and> pal s i r0 \<and> \<not> pal s i (Suc r0)"
      using np less.prems by simp
    then show ?thesis by blast
  next
    case True
    have e1: "int i + int r0 + 1 = int (i + Suc r0)" by simp
    have e2: "int i - int r0 - 1 = int (i - Suc r0)" using True by simp
    have g1: "py_get s (int i + int r0 + 1) = Inr (s ! (i + Suc r0))"
      unfolding e1 using True by (intro py_get_nat) simp
    have g2: "py_get s (int i - int r0 - 1) = Inr (s ! (i - Suc r0))"
      unfolding e2 using less.prems(1) by (intro py_get_nat) arith
    have c: "int i - int r0 - 1 \<ge> 0 \<and> int i + int r0 + 1 < int (length s)"
      using True by auto
    show ?thesis
    proof (cases "s ! (i + Suc r0) = s ! (i - Suc r0)")
      case False
      then have np: "\<not> pal s i (Suc r0)" by (auto simp: pal_Suc)
      have "manacher_while s (int i) res = Inr res"
        using False g g1 g2 c by (subst manacher_while.simps) simp
      moreover have "res[i := int r0] = res"
        using less.prems by (metis list_update_id)
      ultimately have "manacher_while s (int i) res = Inr (res[i := int r0]) \<and> pal s i r0 \<and> \<not> pal s i (Suc r0)"
        using np less.prems by simp
      then show ?thesis by blast
    next
      case eq: True
      let ?res' = "res[i := int (Suc r0)]"
      have st: "py_set res (int i) (int r0 + 1) = Inr ?res'"
        using less.prems py_set_nat [of i res "int r0 + 1"] by (simp add: add.commute)
      have step: "manacher_while s (int i) res = manacher_while s (int i) ?res'"
        using eq g g1 g2 c st by (subst manacher_while.simps) simp
      have p': "pal s i (Suc r0)" using eq True less.prems by (simp add: pal_Suc)
      have "\<exists>r. manacher_while s (int i) ?res' = Inr (?res'[i := int r]) \<and> pal s i r \<and> \<not> pal s i (Suc r)"
      proof (rule less.hyps)
        show "length s - i - Suc r0 < length s - i - r0" using True by arith
        show "i < length s" by (rule less.prems(1))
        show "length ?res' = length s" using less.prems(2) by simp
        show "?res' ! i = int (Suc r0)" using less.prems(1,2) by simp
        show "pal s i (Suc r0)" by (rule p')
      qed
      then show ?thesis using step by auto
    qed
  qed
qed

lemma manacher_loop_correct:
  assumes "i \<le> length s" "length res = length s"
    and "\<forall>k<i. \<exists>r. res ! k = int r \<and> pal s k r \<and> \<not> pal s k (Suc r)"
    and "\<forall>k<length s. i \<le> k \<longrightarrow> res ! k = 0"
    and "(cc = 0 \<and> cr = 0) \<or> (0 \<le> cc \<and> cc < int i \<and> cr = cc + res ! nat cc)"
  shows "\<exists>res'. manacher_loop s (map int [i..<length s]) cc cr mv mi res = Inr res' \<and>
     length res' = length s \<and>
     (\<forall>k<length s. \<exists>r. res' ! k = int r \<and> pal s k r \<and> \<not> pal s k (Suc r))"
  using assms
proof (induction "length s - i" arbitrary: i res cc cr mv mi)
  case 0
  then have "i = length s" by simp
  with 0 show ?case by simp
next
  case (Suc d)
  then have i: "i < length s" by simp
  have upt: "map int [i..<length s] = int i # map int [Suc i..<length s]"
    using i by (simp add: upt_conv_Cons)
  let ?res1 = "if int i < cr then res[i := min (res ! nat (2 * cc - int i)) (cr - int i)] else res"
  have first: "(if int i < cr then
              (case py_get res (push_bit 1 cc - int i) of
                 Inl e \<Rightarrow> Inl e
               | Inr v \<Rightarrow> py_set res (int i) (min v (cr - int i)))
            else Inr res) = Inr ?res1 \<and> (\<exists>r0. ?res1 ! i = int r0 \<and> pal s i r0)"
  proof (cases "int i < cr")
    case False
    then show ?thesis using Suc.prems i by (auto simp: pal_0)
  next
    case True
    with Suc.prems(5) have c: "0 \<le> cc" "cc < int i" "cr = cc + res ! nat cc" by auto
    define c where "c = nat cc"
    have cc: "cc = int c" and ci: "c < i" using c by (auto simp: c_def)
    obtain R where R: "res ! c = int R" "pal s c R"
      using Suc.prems(3) ci by blast
    have iR: "i < c + R" using True c R by (simp add: cc)
    have Rc: "R \<le> c" "c + R < length s" using R by (auto simp: pal_def)
    define m where "m = 2 * c - i"
    have m: "m < i" "m + i = 2 * c" using iR Rc ci by (auto simp: m_def)
    have mi: "push_bit 1 cc - int i = int m" "2 * cc - int i = int m"
      using m by (auto simp: cc push_bit_eq_mult)
    obtain rm where rm: "res ! m = int rm" "pal s m rm"
      using Suc.prems(3) m by blast
    have g: "py_get res (push_bit 1 cc - int i) = Inr (int rm)"
      unfolding mi using m i Suc.prems(2) rm by (simp add: py_get_nat)
    define v where "v = min rm (c + R - i)"
    have v: "min (int rm) (cr - int i) = int v"
      using iR by (simp add: v_def c cc R)
    have st: "py_set res (int i) (int v) = Inr (res[i := int v])"
      using i Suc.prems(2) by (simp add: py_set_nat)
    have "pal s i v"
      unfolding pal_def
    proof (intro conjI allI impI)
      have "rm \<le> m" using rm by (simp add: pal_def)
      then show "v \<le> i" using m by (simp add: v_def)
      show "i + v < length s" using Rc iR by (simp add: v_def)
      fix k assume k: "k \<le> v"
      then have k1: "k \<le> rm" and k2: "i + k \<le> c + R" using iR by (auto simp: v_def)
      have Rall: "\<And>j. j \<le> R \<Longrightarrow> s ! (c - j) = s ! (c + j)"
        using R(2) by (simp add: pal_def)
      have a: "s ! (c - (i + k - c)) = s ! (c + (i + k - c))"
        using k2 ci by (intro Rall) arith
      have b: "s ! (c - (i - k - c)) = s ! (c + (i - k - c))" if "c \<le> i - k"
        using k2 ci that by (intro Rall) arith
      have b': "s ! (c - (c - (i - k))) = s ! (c + (c - (i - k)))" if "i - k \<le> c"
        using k2 ci that iR Rc m k1 by (intro Rall) arith
      have d: "s ! (m - k) = s ! (m + k)" using rm(2) k1 by (auto simp: pal_def)
      have km: "k \<le> m" using k1 rm(2) by (auto simp: pal_def)
      have e1: "c - (i + k - c) = m - k" using m ci km by (auto simp: m_def)
      have e2: "c + (i + k - c) = i + k" using ci by simp
      have "s ! (i - k) = s ! (m + k)"
      proof (cases "c \<le> i - k")
        case True
        have "c - (i - k - c) = m + k" using True m ci km k \<open>v \<le> i\<close> by (auto simp: m_def)
        moreover have "c + (i - k - c) = i - k" using True by simp
        ultimately show ?thesis using b [OF True] by simp
      next
        case False
        then have le: "i - k \<le> c" by simp
        have "c + (c - (i - k)) = m + k" using le m ci km k \<open>v \<le> i\<close> by (auto simp: m_def)
        moreover have "c - (c - (i - k)) = i - k" using le by simp
        ultimately show ?thesis using b' [OF le] by simp
      qed
      then show "s ! (i - k) = s ! (i + k)" using a d e1 e2 by simp
    qed
    then show ?thesis using True g st v mi i Suc.prems(2) rm by auto
  qed
  then obtain r0 where r0: "?res1 ! i = int r0" "pal s i r0" by blast
  have len1: "length ?res1 = length s" using Suc.prems(2) by simp
  obtain r where r: "manacher_while s (int i) ?res1 = Inr (?res1[i := int r])"
      "pal s i r" "\<not> pal s i (Suc r)"
    using manacher_while_correct [OF i len1 r0] by blast
  let ?res2 = "?res1[i := int r]"
  have res2: "?res2 = res[i := int r]" by simp
  have g2: "py_get ?res2 (int i) = Inr (int r)"
    using i len1 by (simp add: py_get_nat)
  let ?cc' = "if int i + int r > cr then int i else cc"
  let ?cr' = "if int i + int r > cr then int i + int r else cr"
  have step: "manacher_loop s (map int [i..<length s]) cc cr mv mi res =
     manacher_loop s (map int [Suc i..<length s]) ?cc' ?cr'
       (if int r > mv then int r else mv) (if int r > mv then int i else mi) ?res2"
    unfolding upt manacher_loop.simps using first r(1) g2 by simp
  have "\<exists>res'. manacher_loop s (map int [Suc i..<length s]) ?cc' ?cr'
       (if int r > mv then int r else mv) (if int r > mv then int i else mi) ?res2 = Inr res' \<and>
     length res' = length s \<and>
     (\<forall>k<length s. \<exists>r. res' ! k = int r \<and> pal s k r \<and> \<not> pal s k (Suc r))"
  proof (rule Suc.hyps(1))
    show "d = length s - Suc i" using Suc.hyps(2) by simp
    show "Suc i \<le> length s" using i by simp
    show "length ?res2 = length s" using Suc.prems(2) by simp
    show "\<forall>k<Suc i. \<exists>ra. ?res2 ! k = int ra \<and> pal s k ra \<and> \<not> pal s k (Suc ra)"
      unfolding res2 using Suc.prems(2,3) r i by (auto simp: less_Suc_eq nth_list_update)
    show "\<forall>k<length s. Suc i \<le> k \<longrightarrow> ?res2 ! k = 0"
      unfolding res2 using Suc.prems(2,4) by (auto simp: nth_list_update)
    show "?cc' = 0 \<and> ?cr' = 0 \<or> 0 \<le> ?cc' \<and> ?cc' < int (Suc i) \<and> ?cr' = ?cc' + ?res2 ! nat ?cc'"
      unfolding res2 using Suc.prems(2,5) i by (auto simp: nth_list_update)
  qed
  then show ?case using step by simp
qed

lemma palindrome_at_iff_pal: "palindrome_at s i r = pal s i r"
proof (cases "r \<le> i \<and> i + r < length s")
  case False
  then show ?thesis by (auto simp: palindrome_at_def pal_def)
next
  case True
  define w where "w = take (2 * r + 1) (drop (i - r) s)"
  have len: "length w = 2 * r + 1" using True by (simp add: w_def, arith)
  have nth: "w ! j = s ! (i - r + j)" if "j < 2 * r + 1" for j
  proof -
    have "w ! j = drop (i - r) s ! j" using that by (simp add: w_def)
    also have "\<dots> = s ! (i - r + j)" using True by (intro nth_drop) arith
    finally show ?thesis .
  qed
  have "rev w = w \<longleftrightarrow> (\<forall>j<2 * r + 1. w ! (2 * r - j) = w ! j)"
    using len by (auto simp: list_eq_iff_nth_eq rev_nth)
  also have "\<dots> \<longleftrightarrow> (\<forall>k\<le>r. s ! (i - k) = s ! (i + k))"
  proof
    assume a: "\<forall>j<2 * r + 1. w ! (2 * r - j) = w ! j"
    show "\<forall>k\<le>r. s ! (i - k) = s ! (i + k)"
    proof (intro allI impI)
      fix k assume k: "k \<le> r"
      have "r - k < 2 * r + 1" using k by arith
      with a have "w ! (2 * r - (r - k)) = w ! (r - k)" by blast
      moreover have "w ! (2 * r - (r - k)) = s ! (i - r + (2 * r - (r - k)))"
        using k by (intro nth) arith
      moreover have "w ! (r - k) = s ! (i - r + (r - k))"
        using k by (intro nth) arith
      moreover have "i - r + (2 * r - (r - k)) = i + k" using k True by arith
      moreover have "i - r + (r - k) = i - k" using k True by arith
      ultimately show "s ! (i - k) = s ! (i + k)" by simp
    qed
  next
    assume a: "\<forall>k\<le>r. s ! (i - k) = s ! (i + k)"
    show "\<forall>j<2 * r + 1. w ! (2 * r - j) = w ! j"
    proof (intro allI impI)
      fix j assume j: "j < 2 * r + 1"
      have w1: "w ! j = s ! (i - r + j)" using j by (rule nth)
      have w2: "w ! (2 * r - j) = s ! (i - r + (2 * r - j))" using j by (intro nth) arith
      show "w ! (2 * r - j) = w ! j"
      proof (cases "j \<le> r")
        case le: True
        have "r - j \<le> r" by arith
        with a have h: "s ! (i - (r - j)) = s ! (i + (r - j))" by blast
        have e1: "i - r + j = i - (r - j)" using le True by arith
        have e2: "i - r + (2 * r - j) = i + (r - j)" using le True by arith
        show ?thesis by (simp only: w1 w2 e1 e2 h)
      next
        case gt: False
        have "j - r \<le> r" using j by arith
        with a have h: "s ! (i - (j - r)) = s ! (i + (j - r))" by blast
        have e1: "i - r + j = i + (j - r)" using gt True by arith
        have e2: "i - r + (2 * r - j) = i - (j - r)" using gt True j by arith
        show ?thesis by (simp only: w1 w2 e1 e2 h)
      qed
    qed
  qed
  finally show ?thesis using True by (simp add: palindrome_at_def pal_def w_def)
qed

lemma manacherAlgorithm_example: "manacherAlgorithm ''ebabad'' = Inr [0, 0, 1, 1, 0, 0]"
  by code_simp

text \<open>
  C6: \<open>manacherAlgorithm(s)\<close> returns a list as long as \<open>s\<close> whose entry at every index
  \<open>i\<close> is the largest \<open>r\<close> for which the elements of \<open>s\<close> from index \<open>i - r\<close> to \<open>i + r\<close>
  form a palindrome; and \<open>manacherAlgorithm("ebabad")\<close> is \<open>[0, 0, 1, 1, 0, 0]\<close>.
\<close>

theorem C6_manacher_radius:
  "(\<exists>res. manacherAlgorithm s = Inr res \<and> length res = length s \<and>
      (\<forall>i<length s. \<exists>r. res ! i = int r \<and> palindrome_at s i r \<and>
         (\<forall>r'. palindrome_at s i r' \<longrightarrow> r' \<le> r))) \<and>
   manacherAlgorithm ''ebabad'' = Inr [0, 0, 1, 1, 0, 0]"
proof -
  have "\<exists>res'. manacher_loop s (map int [0..<length s]) 0 0 0 0 (replicate (length s) 0) = Inr res' \<and>
     length res' = length s \<and>
     (\<forall>k<length s. \<exists>r. res' ! k = int r \<and> pal s k r \<and> \<not> pal s k (Suc r))"
    by (rule manacher_loop_correct) auto
  then obtain res where res: "manacherAlgorithm s = Inr res" "length res = length s"
    "\<forall>k<length s. \<exists>r. res ! k = int r \<and> pal s k r \<and> \<not> pal s k (Suc r)"
    by (auto simp: manacherAlgorithm_def py_range_0)
  have "\<forall>i<length s. \<exists>r. res ! i = int r \<and> palindrome_at s i r \<and>
         (\<forall>r'. palindrome_at s i r' \<longrightarrow> r' \<le> r)"
    using res(3) pal_max by (fastforce simp: palindrome_at_iff_pal)
  with res(1,2) show ?thesis using manacherAlgorithm_example by blast
qed

theorem C6_manacher_radius_witness:
  "manacherAlgorithm ''ebabad'' = Inr [0, 0, 1, 1, 0, 0] \<and>
   palindrome_at ''ebabad'' 2 1 \<and> \<not> palindrome_at ''ebabad'' 2 2"
proof -
  from C6_manacher_radius [of "''ebabad''"]
  obtain res where res: "manacherAlgorithm ''ebabad'' = Inr res"
    and all: "\<forall>i<length ''ebabad''. \<exists>r. res ! i = int r \<and> palindrome_at ''ebabad'' i r \<and>
         (\<forall>r'. palindrome_at ''ebabad'' i r' \<longrightarrow> r' \<le> r)"
    and ex: "manacherAlgorithm ''ebabad'' = Inr [0, 0, 1, 1, 0, 0]"
    by blast
  from res ex have eq: "res = [0, 0, 1, 1, 0, 0]" by simp
  have "(2::nat) < length ''ebabad''" by simp
  with all obtain r where r: "res ! 2 = int r" "palindrome_at ''ebabad'' 2 r"
    "\<forall>r'. palindrome_at ''ebabad'' 2 r' \<longrightarrow> r' \<le> r"
    by blast
  from r(1) eq have "r = 1" by simp
  with r(2,3) have "palindrome_at ''ebabad'' 2 1" "\<not> palindrome_at ''ebabad'' 2 2"
    by auto
  with ex show ?thesis by simp
qed

end
